theory Spec2Isabelle
  imports Complex_Main "HOL-Library.Word"
begin

unbundle bit_operations_syntax

section \<open>Data model of add-opt-in.go\<close>

type_synonym u8 = "8 word"
type_synonym u16 = "16 word"
type_synonym u32 = "32 word"
type_synonym bytes = "u8 list"

text \<open>
  \<^verbatim>\<open>type SwfHeader struct { Signature [3]uint8; Version uint8; FileLength uint32 }\<close>
\<close>

record SwfHeader =
  Signature :: bytes
  Version :: u8
  FileLength :: u32

definition TAG_TELEMETRY :: u16 where "TAG_TELEMETRY = 93"
definition TAG_SIGNED_SWF :: u16 where "TAG_SIGNED_SWF = 94"
definition TAG_FILE_ATTRIBUTES :: u16 where "TAG_FILE_ATTRIBUTES = 69"
definition TAG_META :: u16 where "TAG_META = 77"
definition TAG_END :: u16 where "TAG_END = 0"
definition LONG_TAG_LENGTH :: u32 where "LONG_TAG_LENGTH = 63"

text \<open>The signatures \<^verbatim>\<open>"FWS"\<close>, \<^verbatim>\<open>"CWS"\<close> and \<^verbatim>\<open>"ZWS"\<close> as their ASCII bytes.\<close>

definition NO_COMPRESSION :: bytes where "NO_COMPRESSION = [0x46, 0x57, 0x53]"
definition ZLIB_COMPRESSION :: bytes where "ZLIB_COMPRESSION = [0x43, 0x57, 0x53]"
definition LZMA_COMPRESSION :: bytes where "LZMA_COMPRESSION = [0x5A, 0x57, 0x53]"

section \<open>Little-endian reads and writes\<close>

text \<open>
  A reader is the list of bytes it has still to deliver. \<^verbatim>\<open>binary.Read\<close> into a
  fixed-size integer goes through \<^verbatim>\<open>io.ReadFull\<close>: with too few bytes left it
  consumes what there is, returns an error and leaves the destination variable as it
  was. The value is \<open>None\<close> in that case; what the caller does with the error is the
  caller's business.
\<close>

definition le16 :: "u16 \<Rightarrow> bytes" where
  "le16 w = [ucast w, ucast (drop_bit 8 w)]"

definition le32 :: "u32 \<Rightarrow> bytes" where
  "le32 w = [ucast w, ucast (drop_bit 8 w), ucast (drop_bit 16 w), ucast (drop_bit 24 w)]"

definition of_le16 :: "u8 \<Rightarrow> u8 \<Rightarrow> u16" where
  "of_le16 b0 b1 = ucast b0 OR push_bit 8 (ucast b1)"

definition of_le32 :: "u8 \<Rightarrow> u8 \<Rightarrow> u8 \<Rightarrow> u8 \<Rightarrow> u32" where
  "of_le32 b0 b1 b2 b3 =
     ucast b0 OR push_bit 8 (ucast b1) OR push_bit 16 (ucast b2) OR push_bit 24 (ucast b3)"

fun binary_Read_u8 :: "bytes \<Rightarrow> u8 option \<times> bytes" where
  "binary_Read_u8 (b0 # r) = (Some b0, r)"
| "binary_Read_u8 r = (None, [])"

fun binary_Read_u16 :: "bytes \<Rightarrow> u16 option \<times> bytes" where
  "binary_Read_u16 (b0 # b1 # r) = (Some (of_le16 b0 b1), r)"
| "binary_Read_u16 r = (None, [])"

fun binary_Read_u32 :: "bytes \<Rightarrow> u32 option \<times> bytes" where
  "binary_Read_u32 (b0 # b1 # b2 # b3 # r) = (Some (of_le32 b0 b1 b2 b3), r)"
| "binary_Read_u32 r = (None, [])"

text \<open>
  \<^verbatim>\<open>buf := make([]byte, n); io.ReadFull(reader, buf)\<close>: the buffer starts as \<open>n\<close>
  zero bytes and the read overwrites as many of them as the reader still has. The
  result is the buffer and the reader after the read.
\<close>

definition io_ReadFull :: "bytes \<Rightarrow> nat \<Rightarrow> bytes \<times> bytes" where
  "io_ReadFull r n = (take n r @ replicate (n - length r) 0, drop n r)"

section \<open>peekTag\<close>

text \<open>
  The result is the tag type, the bytes collected in \<^verbatim>\<open>tagBuffer\<close> and the reader
  after the call. Every error of the three reads is dropped by the source, so a failed
  read of \<^verbatim>\<open>tagCodeAndLength\<close> or \<^verbatim>\<open>longLength\<close> leaves the variable at its zero
  value.
\<close>

definition peekTag :: "bytes \<Rightarrow> u16 \<times> bytes \<times> bytes" where
  "peekTag reader =
     (let (v, r1) = binary_Read_u16 reader;
          tagCodeAndLength = (case v of Some w \<Rightarrow> w | None \<Rightarrow> 0);
          tagBuffer = le16 tagCodeAndLength;
          tagType = drop_bit 6 tagCodeAndLength;
          tagLength = (ucast tagCodeAndLength :: u32) AND 0x3f
      in if tagLength \<ge> LONG_TAG_LENGTH then
           (let (v', r2) = binary_Read_u32 r1;
                longLength = (case v' of Some l \<Rightarrow> l | None \<Rightarrow> 0);
                (tagData, r3) = io_ReadFull r2 (unat longLength)
            in (tagType, tagBuffer @ le32 longLength @ tagData, r3))
         else
           (let (tagData, r3) = io_ReadFull r1 (unat tagLength)
            in (tagType, tagBuffer @ tagData, r3)))"

section \<open>The bounding box\<close>

text \<open>
  \<^verbatim>\<open>var nBits uint8 = (frameSize & 0xff) >> 3\<close> and
  \<^verbatim>\<open>var numberOfBytes uint32 = (7 + (uint32(nBits) * 4) - 3) / 8\<close>.
\<close>

definition nBits :: "u8 \<Rightarrow> u8" where
  "nBits frameSize = drop_bit 3 (frameSize AND 0xff)"

definition numberOfBytes :: "u8 \<Rightarrow> u32" where
  "numberOfBytes frameSize = (7 + (ucast (nBits frameSize) * 4) - 3) div 8"

section \<open>writeTelemetryTag\<close>

text \<open>
  The writer is the list of bytes written to it so far, paired with the counter
  \<^verbatim>\<open>headerUncompressedLength\<close> that the source passes by pointer. The local
  \<^verbatim>\<open>tagLength\<close> is the constant 2, and both branches of the source are kept.
\<close>

type_synonym wstate = "bytes \<times> u32"

definition writeTelemetryTag :: "wstate \<Rightarrow> wstate" where
  "writeTelemetryTag s =
     (let (writer, headerSize) = s;
          tagLength = (2 :: u16);
          tagCodeAndLength = TAG_TELEMETRY;
          (writer, headerSize) =
            (if (ucast tagLength :: u32) \<ge> LONG_TAG_LENGTH then
               (let tagCodeAndLength = push_bit 6 tagCodeAndLength OR 0x3f
                in (writer @ le16 tagCodeAndLength @ le16 tagLength, headerSize + 2 + 4))
             else
               (let tagCodeAndLength = push_bit 6 tagCodeAndLength OR tagLength
                in (writer @ le16 tagCodeAndLength, headerSize + 2)));
          reservedPadding = (0 :: u16)
      in (writer @ le16 reservedPadding, headerSize + 2))"

section \<open>main\<close>

text \<open>
  The ways \<^verbatim>\<open>main\<close> stops without replacing the file: the two early returns after
  a failed read of the header and a failed \<^verbatim>\<open>zlib.NewReader\<close>, the early return
  \<^verbatim>\<open>"Not supported yet"\<close>, the two \<^verbatim>\<open>panic\<close> calls of the tag loop, and the
  run-time panic of a read through the \<^verbatim>\<open>reader\<close> variable while it is still nil.
\<close>

datatype error =
    ReadHeaderFailed
  | ZlibNewReaderFailed
  | NotSupportedYet
  | PanicTelemetryAlreadyEnabled
  | PanicSignedNotSupported
  | PanicNilReader

text \<open>\<^verbatim>\<open>writer.Write(tagData); headerUncompressedLength += uint32(len(tagData))\<close>\<close>

definition write_tag :: "bytes \<Rightarrow> wstate \<Rightarrow> wstate" where
  "write_tag tagData s = (fst s @ tagData, snd s + of_nat (length tagData))"

text \<open>
  What \<^verbatim>\<open>peekTag\<close> leaves in the reader, and how much of the reader a tag of a type
  other than 0 takes. The loop of \<^verbatim>\<open>main\<close> terminates by these facts.
\<close>

lemma binary_Read_u16_rest: "snd (binary_Read_u16 r) = drop 2 r"
  by (cases r rule: binary_Read_u16.cases) simp_all

lemma binary_Read_u32_rest: "snd (binary_Read_u32 r) = drop 4 r"
  by (cases r rule: binary_Read_u32.cases) simp_all

lemma io_ReadFull_length: "length (fst (io_ReadFull r n)) = n"
  by (simp add: io_ReadFull_def)

lemma io_ReadFull_rest: "snd (io_ReadFull r n) = drop n r"
  by (simp add: io_ReadFull_def)

lemma length_le16: "length (le16 w) = 2"
  by (simp add: le16_def)

lemma length_le32: "length (le32 w) = 4"
  by (simp add: le32_def)

lemma peekTag_rest: "snd (snd (peekTag r)) = drop (length (fst (snd (peekTag r)))) r"
  by (simp add: peekTag_def Let_def split_beta io_ReadFull_length io_ReadFull_rest
      length_le16 length_le32 binary_Read_u16_rest binary_Read_u32_rest add.commute)

lemma peekTag_data_ge2: "2 \<le> length (fst (snd (peekTag r)))"
  by (simp add: peekTag_def Let_def split_beta length_le16)

lemma peekTag_short_reader: "length r < 2 \<Longrightarrow> fst (peekTag r) = 0"
  by (cases r rule: binary_Read_u16.cases) (simp_all add: peekTag_def Let_def split_beta)

lemma peekTag_consumes:
  assumes "fst (peekTag r) \<noteq> 0"
  shows "length (snd (snd (peekTag r))) < length r"
proof -
  from assms have "2 \<le> length r" using peekTag_short_reader [of r] by fastforce
  with peekTag_data_ge2 [of r] show ?thesis by (simp add: peekTag_rest)
qed

lemma peekTag_rest_le: "length (snd (snd (peekTag r))) \<le> length r"
  by (simp add: peekTag_rest)

text \<open>
  The \<^verbatim>\<open>for\<close> loop of \<^verbatim>\<open>main\<close>, lines 178 to 206. \<^verbatim>\<open>break\<close> is the result
  \<open>Inr\<close>, a \<^verbatim>\<open>panic\<close> the result \<open>Inl\<close>.
\<close>

function main_loop :: "bytes \<Rightarrow> wstate \<Rightarrow> error + wstate" where
  "main_loop reader s =
     (case peekTag reader of (tagType, tagData, r1) \<Rightarrow>
        if tagType = TAG_TELEMETRY then Inl PanicTelemetryAlreadyEnabled
        else if tagType = TAG_SIGNED_SWF then Inl PanicSignedNotSupported
        else if tagType = TAG_FILE_ATTRIBUTES then
          (case peekTag r1 of (nextTagType, nextTagData, r2) \<Rightarrow>
             (let s1 = write_tag tagData s;
                  s2 = (if nextTagType = TAG_META then write_tag nextTagData s1 else s1);
                  s3 = writeTelemetryTag s2;
                  s4 = (if nextTagType \<noteq> TAG_META then write_tag nextTagData s3 else s3)
              in main_loop r2 s4))
        else if tagType = TAG_END then Inr (write_tag tagData s)
        else main_loop r1 (write_tag tagData s))"
  by pat_completeness auto
termination
proof (relation "measure (\<lambda>(reader, s). length reader)", goal_cases)
  case 1
  show ?case by simp
next
  case (2 reader s tagType y tagData r1 nextTagType yb nextTagData r2)
  from 2 have "fst (peekTag reader) = TAG_FILE_ATTRIBUTES"
    and r1: "r1 = snd (snd (peekTag reader))" and r2: "r2 = snd (snd (peekTag r1))"
    by (metis fst_conv, metis snd_conv, metis snd_conv)
  then have "fst (peekTag reader) \<noteq> 0" by (simp add: TAG_FILE_ATTRIBUTES_def)
  then have "length r1 < length reader" unfolding r1 by (rule peekTag_consumes)
  moreover have "length r2 \<le> length r1" unfolding r2 by (rule peekTag_rest_le)
  ultimately show ?case by simp
next
  case (3 reader s tagType y tagData r1)
  from 3 have "fst (peekTag reader) \<noteq> 0" and r1: "r1 = snd (snd (peekTag reader))"
    by (metis TAG_END_def fst_conv, metis snd_conv)
  then have "length r1 < length reader" unfolding r1 by (simp add: peekTag_consumes)
  then show ?case by simp
qed

declare main_loop.simps [simp del]

text \<open>
  Lines 138 to 206 of \<^verbatim>\<open>main\<close>, on the uncompressed side: the counter starts at the 8
  bytes of the header, which go to \<^verbatim>\<open>outFile\<close> directly; the bounding box, the frame
  rate and the frame count are read from \<^verbatim>\<open>reader\<close> and written to \<^verbatim>\<open>writer\<close>; then
  the loop runs. The errors of all these reads are dropped by the source.
\<close>

definition main_body :: "bytes \<Rightarrow> error + wstate" where
  "main_body reader =
     (let headerUncompressedLength = (0 :: u32) + 8;
          (v, r1) = binary_Read_u8 reader;
          frameSize = (case v of Some b \<Rightarrow> b | None \<Rightarrow> 0);
          (frameData, r2) = io_ReadFull r1 (unat (numberOfBytes frameSize));
          writer = [frameSize] @ frameData;
          headerUncompressedLength = headerUncompressedLength + 1 + numberOfBytes frameSize;
          (v, r3) = binary_Read_u16 r2;
          frameRate = (case v of Some w \<Rightarrow> w | None \<Rightarrow> 0);
          (v, r4) = binary_Read_u16 r3;
          frameCount = (case v of Some w \<Rightarrow> w | None \<Rightarrow> 0);
          writer = writer @ le16 frameRate @ le16 frameCount;
          headerUncompressedLength = headerUncompressedLength + 2 + 2
      in main_loop r4 (writer, headerUncompressedLength))"

text \<open>\<^verbatim>\<open>binary.Read(swfFile, binary.LittleEndian, &swfHeader)\<close> and the matching write.\<close>

fun read_SwfHeader :: "bytes \<Rightarrow> SwfHeader option \<times> bytes" where
  "read_SwfHeader (s0 # s1 # s2 # v # l0 # l1 # l2 # l3 # r) =
     (Some \<lparr>Signature = [s0, s1, s2], Version = v, FileLength = of_le32 l0 l1 l2 l3\<rparr>, r)"
| "read_SwfHeader r = (None, [])"

definition write_SwfHeader :: "SwfHeader \<Rightarrow> bytes" where
  "write_SwfHeader h = Signature h @ [Version h] @ le32 (FileLength h)"

text \<open>\<^verbatim>\<open>outFile.Seek(4, os.SEEK_SET); binary.Write(outFile, binary.LittleEndian, n)\<close>\<close>

definition write_length_at_4 :: "bytes \<Rightarrow> u32 \<Rightarrow> bytes" where
  "write_length_at_4 outFile n = take 4 outFile @ le32 n @ drop 8 outFile"

text \<open>
  \<^verbatim>\<open>main\<close>, from the read of the header to the rename. The argument \<open>swfFile\<close> is
  the content of the file at \<^verbatim>\<open>os.Args[1]\<close>; the result \<open>Inr\<close> is the content of the
  file that replaces it, and with \<open>Inl\<close> the file is left as it was. The package
  \<^verbatim>\<open>compress/zlib\<close> is not part of the program and comes as two parameters:
  \<open>zlib_NewReader\<close> maps the compressed bytes to the bytes the reader delivers (\<open>None\<close>
  when \<^verbatim>\<open>zlib.NewReader\<close> returns an error), \<open>zlib_Writer\<close> maps the bytes written to
  the writer to what it has put into \<^verbatim>\<open>outFile\<close> once closed. \<^verbatim>\<open>reader\<close> and
  \<^verbatim>\<open>writer\<close> are nil (\<open>None\<close>) when no branch of the signature test assigns them.
\<close>

definition main :: "(bytes \<Rightarrow> bytes option) \<Rightarrow> (bytes \<Rightarrow> bytes) \<Rightarrow> bytes \<Rightarrow> error + bytes" where
  "main zlib_NewReader zlib_Writer swfFile =
     (case read_SwfHeader swfFile of
        (None, _) \<Rightarrow> Inl ReadHeaderFailed
      | (Some swfHeader, afterHeader) \<Rightarrow>
          (let compressionType = Signature swfHeader;
               streams =
                 (if compressionType = NO_COMPRESSION then Inr (Some (afterHeader, id))
                  else if compressionType = ZLIB_COMPRESSION then
                    (case zlib_NewReader afterHeader of
                       None \<Rightarrow> Inl ZlibNewReaderFailed
                     | Some r \<Rightarrow> Inr (Some (r, zlib_Writer)))
                  else if compressionType = LZMA_COMPRESSION then Inl NotSupportedYet
                  else Inr None)
           in case streams of
                Inl e \<Rightarrow> Inl e
              | Inr None \<Rightarrow> Inl PanicNilReader
              | Inr (Some (reader, writer)) \<Rightarrow>
                  (case main_body reader of
                     Inl e \<Rightarrow> Inl e
                   | Inr (written, headerUncompressedLength) \<Rightarrow>
                       Inr (write_length_at_4 (write_SwfHeader swfHeader @ writer written)
                              headerUncompressedLength))))"

section \<open>Records on the wire\<close>

text \<open>
  The input of the program is a stream of records. A record is a type, a payload
  and the form of its length prefix: the short form is one 16-bit little-endian word,
  type in the high 10 bits and length (0 to 62) in the low 6 bits; the long form has 63
  in the low 6 bits and a 32-bit little-endian length after the word. The program has no
  encoder for records it reads, so the two encodings are written here from the format and
  \<^verbatim>\<open>peekTag\<close> is proved to read them back.
\<close>

datatype tag = Tag (tag_code: u16) (long_form: bool) (payload: bytes)

definition encode_tag :: "tag \<Rightarrow> bytes" where
  "encode_tag t =
     (if long_form t then
        le16 (push_bit 6 (tag_code t) OR 0x3f) @ le32 (of_nat (length (payload t))) @ payload t
      else
        le16 (push_bit 6 (tag_code t) OR of_nat (length (payload t))) @ payload t)"

definition valid_tag :: "tag \<Rightarrow> bool" where
  "valid_tag t \<longleftrightarrow>
     tag_code t < 1024 \<and>
     (if long_form t then length (payload t) < 2 ^ 32 else length (payload t) < 63)"

definition encode_tags :: "tag list \<Rightarrow> bytes" where
  "encode_tags ts = concat (map encode_tag ts)"

text \<open>The low 6 bits of the first word of an encoded record, as \<^verbatim>\<open>peekTag\<close> extracts them.\<close>

definition length_field :: "bytes \<Rightarrow> u32" where
  "length_field raw = (ucast (of_le16 (raw ! 0) (raw ! 1)) :: u32) AND 0x3f"

text \<open>The bytes \<^verbatim>\<open>writeTelemetryTag\<close> puts into an empty writer.\<close>

definition telemetry_tag :: bytes where
  "telemetry_tag = fst (writeTelemetryTag ([], 0))"

text \<open>
  A record the loop copies and goes on: well-formed, and of none of the four types the
  loop treats specially.
\<close>

definition copied :: "tag \<Rightarrow> bool" where
  "copied t \<longleftrightarrow>
     valid_tag t \<and> tag_code t \<noteq> TAG_TELEMETRY \<and> tag_code t \<noteq> TAG_SIGNED_SWF \<and>
     tag_code t \<noteq> TAG_FILE_ATTRIBUTES \<and> tag_code t \<noteq> TAG_END"

text \<open>
  A record of a stream that has no file-attributes record and has not ended: well-formed,
  and neither a file-attributes nor an end record. Among these, the loop refuses the
  telemetry and the signed-container markers with a panic.
\<close>

definition scanned :: "tag \<Rightarrow> bool" where
  "scanned t \<longleftrightarrow> valid_tag t \<and> tag_code t \<noteq> TAG_FILE_ATTRIBUTES \<and> tag_code t \<noteq> TAG_END"

definition refused :: "tag \<Rightarrow> bool" where
  "refused t \<longleftrightarrow> tag_code t = TAG_TELEMETRY \<or> tag_code t = TAG_SIGNED_SWF"

definition panic_of :: "tag \<Rightarrow> error" where
  "panic_of t = (if tag_code t = TAG_TELEMETRY then PanicTelemetryAlreadyEnabled
                 else PanicSignedNotSupported)"

text \<open>
  The uncompressed bytes after the 8-byte header: the first byte of the bounding box, its
  other bytes, the frame rate, the frame count and the records.
\<close>

definition stream_body :: "u8 \<Rightarrow> bytes \<Rightarrow> u16 \<Rightarrow> u16 \<Rightarrow> tag list \<Rightarrow> bytes" where
  "stream_body frameSize frameData frameRate frameCount ts =
     frameSize # frameData @ le16 frameRate @ le16 frameCount @ encode_tags ts"

text \<open>
  The record that \<^verbatim>\<open>writeTelemetryTag\<close> writes: type 93, short form, two zero bytes.
\<close>

definition telemetry_record :: tag where
  "telemetry_record = Tag TAG_TELEMETRY False [0, 0]"

text \<open>
  The insertion as the specification words it, for a stream with several file-attributes
  records: a telemetry record after each file-attributes record, after the metadata record
  that follows it when one does. This is the statement the loop is compared with, not a
  translation of the loop.
\<close>

fun insert_after_each :: "tag list \<Rightarrow> tag list" where
  "insert_after_each [] = []"
| "insert_after_each [a] =
     (if tag_code a = TAG_FILE_ATTRIBUTES then [a, telemetry_record] else [a])"
| "insert_after_each (a # b # ts) =
     (if tag_code a = TAG_FILE_ATTRIBUTES then
        (if tag_code b = TAG_META then a # b # telemetry_record # insert_after_each ts
         else a # telemetry_record # insert_after_each (b # ts))
      else a # insert_after_each (b # ts))"

text \<open>A well-formed record that is not the end record.\<close>

definition before_end :: "tag \<Rightarrow> bool" where
  "before_end t \<longleftrightarrow> valid_tag t \<and> tag_code t \<noteq> TAG_END"

text \<open>
  No file-attributes record is immediately followed by a telemetry marker, a
  signed-container marker or another file-attributes record.
\<close>

fun followers_free :: "tag list \<Rightarrow> bool" where
  "followers_free [] = True"
| "followers_free [a] = True"
| "followers_free (a # b # ts) =
     ((tag_code a = TAG_FILE_ATTRIBUTES \<longrightarrow>
         \<not> refused b \<and> tag_code b \<noteq> TAG_FILE_ATTRIBUTES) \<and>
      followers_free (b # ts))"

text \<open>The last record of the list is a file-attributes record.\<close>

fun ends_with_file_attributes :: "tag list \<Rightarrow> bool" where
  "ends_with_file_attributes [] = False"
| "ends_with_file_attributes [a] = (tag_code a = TAG_FILE_ATTRIBUTES)"
| "ends_with_file_attributes (a # b # ts) = ends_with_file_attributes (b # ts)"

text \<open>
  What the loop is proved to do on the records \<open>ts\<close>, the end record \<open>e\<close> and the bytes
  \<open>r\<close> after it, from the state \<open>s\<close>: it panics at the first telemetry or
  signed-container marker; otherwise it writes the records with a telemetry record after
  each file-attributes record and stops, unless the end record was read by the lookahead
  of a last file-attributes record, in which case it goes on with \<open>r\<close>.
\<close>

definition after_records :: "tag list \<Rightarrow> tag \<Rightarrow> bytes \<Rightarrow> wstate \<Rightarrow> error + wstate" where
  "after_records ts e r s =
     (case find refused ts of
        Some t \<Rightarrow> Inl (panic_of t)
      | None \<Rightarrow>
          if ends_with_file_attributes ts
          then main_loop r (write_tag (encode_tags (insert_after_each ts @ [e])) s)
          else Inr (write_tag (encode_tags (insert_after_each ts @ [e])) s))"

definition count_code :: "u16 \<Rightarrow> tag list \<Rightarrow> nat" where
  "count_code c ts = length (filter (\<lambda>t. tag_code t = c) ts)"

text \<open>
  The counter agrees with the bytes: it is the 8 bytes of the header plus the bytes
  written to the writer, as a 32-bit value.
\<close>

definition counted :: "wstate \<Rightarrow> bool" where
  "counted s \<longleftrightarrow> snd s = of_nat (8 + length (fst s))"

section \<open>Properties\<close>

subsection \<open>The bounding-box byte count\<close>

lemma and_255_u8: "(b::u8) AND 255 = b"
proof -
  have "(255::u8) = -1" by simp
  then show ?thesis by (simp only: and.right_neutral)
qed

lemma nBits_unat: "unat (nBits b) = unat b div 8"
  unfolding nBits_def and_255_u8 by (simp add: unat_drop_bit_eq drop_bit_eq_div unat_div)

lemma nBits_le_31: "unat (nBits b) \<le> 31"
proof -
  have "unat b < 256" using unsigned_less [of b] by simp
  then show ?thesis by (simp add: nBits_unat)
qed

lemma numberOfBytes_unat: "unat (numberOfBytes b) = (7 + unat (nBits b) * 4 - 3) div 8"
proof -
  define k where "k = unat (nBits b)"
  have k: "k \<le> 31" unfolding k_def by (rule nBits_le_31)
  have "(ucast (nBits b) :: u32) = of_nat k" by (simp add: k_def)
  then have "(7 + (ucast (nBits b) * 4) - 3 :: u32) = of_nat (4 + 4 * k)" by simp
  moreover have "unat (of_nat (4 + 4 * k) :: u32) = 4 + 4 * k"
    using k by (subst unat_of_nat) simp
  ultimately have "unat (numberOfBytes b) = (4 + 4 * k) div 8"
    by (simp only: numberOfBytes_def unat_div) simp
  then show ?thesis by (simp add: k_def)
qed

lemma ceiling_of_bits: "nat \<lceil>(real (5 + 4 * n) - 5) / 8\<rceil> = (7 + n * 4 - 3) div 8"
proof -
  have "(real (5 + 4 * n) - 5) / 8 = real_of_int (int n) / real_of_int 2" by simp
  then have "\<lceil>(real (5 + 4 * n) - 5) / 8\<rceil> = - (- int n div 2)"
    by (simp only: ceiling_divide_eq_div)
  also have "\<dots> = int ((7 + n * 4 - 3) div 8)" by presburger
  finally show ?thesis by simp
qed

text \<open>
  C9. For every first byte of the bounding box, \<open>nBits\<close> is the byte shifted right by 3, a
  value from 0 to 31, and the number of bytes that follow the first byte is
  \<open>(7 + nBits * 4 - 3) / 8\<close> under integer truncation, which is the ceiling of
  \<open>(5 + 4 * nBits - 5) / 8\<close>. For \<open>nBits = 0\<close> it is 0 and for \<open>nBits = 8\<close> it is 4.
\<close>

theorem numberOfBytes_formula:
  "unat (nBits b) = unat b div 8 \<and> unat (nBits b) \<le> 31 \<and>
   unat (numberOfBytes b) = (7 + unat (nBits b) * 4 - 3) div 8 \<and>
   unat (numberOfBytes b) = nat \<lceil>(real (5 + 4 * unat (nBits b)) - 5) / 8\<rceil> \<and>
   nBits 0 = 0 \<and> numberOfBytes 0 = 0 \<and> nBits 64 = 8 \<and> numberOfBytes 64 = 4"
proof -
  have 1: "nBits 0 = 0" and 2: "nBits 64 = 8" by (simp_all add: nBits_def)
  from 1 have 3: "numberOfBytes 0 = 0" by (simp add: numberOfBytes_def)
  from 2 have 4: "numberOfBytes 64 = 4" by (simp add: numberOfBytes_def)
  have 5: "unat (numberOfBytes b) = nat \<lceil>(real (5 + 4 * unat (nBits b)) - 5) / 8\<rceil>"
    by (simp only: numberOfBytes_unat ceiling_of_bits)
  from 1 2 3 4 5 nBits_unat [of b] nBits_le_31 [of b] numberOfBytes_unat [of b]
  show ?thesis by blast
qed

subsection \<open>Reading a record back\<close>

lemma of_le16_le16: "of_le16 (ucast w) (ucast (drop_bit 8 w)) = w"
  unfolding of_le16_def
  by (rule bit_word_eqI) (auto simp: bit_simps)

lemma binary_Read_u16_le16: "binary_Read_u16 (le16 w @ r) = (Some w, r)"
  by (simp add: le16_def of_le16_le16)

lemma io_ReadFull_exact: "io_ReadFull (p @ r) (length p) = (p, r)"
  by (simp add: io_ReadFull_def)

lemma of_le32_le32:
  "of_le32 (ucast w) (ucast (drop_bit 8 w)) (ucast (drop_bit 16 w)) (ucast (drop_bit 24 w)) = w"
  unfolding of_le32_def
proof (rule bit_word_eqI)
  fix n :: nat
  assume "n < LENGTH(32)"
  then consider "n < 8" | "8 \<le> n" "n < 16" | "16 \<le> n" "n < 24" | "24 \<le> n" "n < 32"
    by fastforce
  then show "bit (ucast (ucast w :: u8) OR push_bit 8 (ucast (ucast (drop_bit 8 w) :: u8)) OR
       push_bit 16 (ucast (ucast (drop_bit 16 w) :: u8)) OR
       push_bit 24 (ucast (ucast (drop_bit 24 w) :: u8)) :: u32) n = bit w n"
    by cases (auto simp: bit_simps)
qed

lemma binary_Read_u32_le32: "binary_Read_u32 (le32 w @ r) = (Some w, r)"
  by (simp add: le32_def of_le32_le32)

lemma bit_below:
  fixes l :: "'a::len word"
  assumes "l < 2 ^ m" "bit l k"
  shows "k < m"
proof -
  from assms have "bit (l AND mask m) k" by (simp add: less_mask_eq)
  then show ?thesis by (simp add: bit_simps)
qed

lemma code_of_word:
  fixes c l :: u16
  assumes "c < 1024" "l < 64"
  shows "drop_bit 6 (push_bit 6 c OR l) = c"
proof (rule bit_word_eqI)
  fix n :: nat
  assume "n < LENGTH(16)"
  have c: "bit c k \<Longrightarrow> k < 10" for k using bit_below [of c 10 k] assms by simp
  have l: "bit l k \<Longrightarrow> k < 6" for k using bit_below [of l 6 k] assms by simp
  show "bit (drop_bit 6 (push_bit 6 c OR l)) n = bit c n"
    using c [of n] l [of "6 + n"] by (auto simp: bit_simps)
qed

lemma len_of_word:
  fixes c l :: u16
  assumes "l < 64"
  shows "(ucast (push_bit 6 c OR l) :: u32) AND 0x3f = ucast l"
proof (rule bit_word_eqI)
  fix n :: nat
  assume "n < LENGTH(32)"
  have l: "bit l k \<Longrightarrow> k < 6" for k using bit_below [of l 6 k] assms by simp
  have m: "(0x3f :: u32) = mask 6" by (simp add: mask_eq_exp_minus_1)
  show "bit ((ucast (push_bit 6 c OR l) :: u32) AND 0x3f) n = bit (ucast l :: u32) n"
    unfolding m using l [of n] by (auto simp: bit_simps)
qed

lemma of_nat_u16_less_64: "n < 63 \<Longrightarrow> (of_nat n :: u16) < 64"
  by (simp add: word_less_nat_alt unat_of_nat)

lemma ucast_of_nat_u16_u32: "n < 63 \<Longrightarrow> (ucast (of_nat n :: u16) :: u32) = of_nat n"
  by (simp add: unsigned_of_nat take_bit_nat_eq_self)

lemma unat_of_nat_u32: "n < 2 ^ 32 \<Longrightarrow> unat (of_nat n :: u32) = n"
  by (simp add: unat_of_nat)

lemma of_nat_u32_lt_63: "n < 63 \<Longrightarrow> \<not> LONG_TAG_LENGTH \<le> (of_nat n :: u32)"
  by (simp add: LONG_TAG_LENGTH_def word_le_nat_alt unat_of_nat)

lemma peekTag_short:
  assumes "c < 1024" "length p < 63"
  shows "peekTag (le16 (push_bit 6 c OR of_nat (length p)) @ p @ r)
         = (c, le16 (push_bit 6 c OR of_nat (length p)) @ p, r)"
proof -
  let ?l = "of_nat (length p) :: u16"
  have l: "?l < 64" using assms(2) by (rule of_nat_u16_less_64)
  have len: "(ucast (push_bit 6 c OR ?l) :: u32) AND 0x3f = of_nat (length p)"
    using len_of_word [OF l] ucast_of_nat_u16_u32 [OF assms(2)] by simp
  have u: "unat (of_nat (length p) :: u32) = length p"
    using assms(2) by (simp add: unat_of_nat)
  have code: "drop_bit 6 (push_bit 6 c) OR drop_bit 6 ?l = c"
    using code_of_word [OF assms(1) l] by simp
  show ?thesis
    using assms(2)
    by (simp add: peekTag_def binary_Read_u16_le16 len code
        of_nat_u32_lt_63 u io_ReadFull_exact del: of_nat_less_iff)
qed

lemma peekTag_long:
  assumes "c < 1024" "length p < 2 ^ 32"
  shows "peekTag (le16 (push_bit 6 c OR 0x3f) @ le32 (of_nat (length p)) @ p @ r)
         = (c, le16 (push_bit 6 c OR 0x3f) @ le32 (of_nat (length p)) @ p, r)"
proof -
  have l: "(0x3f :: u16) < 64" by simp
  have len: "(ucast (push_bit 6 c OR 0x3f) :: u32) AND 0x3f = 0x3f"
    using len_of_word [OF l, of c] by simp
  have u: "unat (of_nat (length p) :: u32) = length p"
    using assms(2) by (simp add: unat_of_nat)
  have code: "drop_bit 6 (push_bit 6 c) = c"
    using code_of_word [OF assms(1) l] by simp
  show ?thesis
    by (simp add: peekTag_def binary_Read_u16_le16 binary_Read_u32_le32 len
        code LONG_TAG_LENGTH_def u io_ReadFull_exact)
qed

lemma peekTag_encode_tag:
  "valid_tag t \<Longrightarrow> peekTag (encode_tag t @ r) = (tag_code t, encode_tag t, r)"
  using peekTag_short [of "tag_code t" "payload t" r] peekTag_long [of "tag_code t" "payload t" r]
  by (simp add: valid_tag_def encode_tag_def split: if_splits)

lemma length_field_le16: "length_field (le16 w @ r) = (ucast w :: u32) AND 0x3f"
proof -
  have "(le16 w @ r) ! 0 = ucast w" "(le16 w @ r) ! 1 = ucast (drop_bit 8 w)"
    by (simp_all add: le16_def)
  then show ?thesis unfolding length_field_def by (simp only: of_le16_le16)
qed

text \<open>
  C8. \<^verbatim>\<open>peekTag\<close> on a reader that starts with the encoding of a record returns the
  type of the record and the whole encoding, length prefix and payload, byte for byte, and
  leaves the reader right after it. The low 6 bits of the first word are 63 exactly when
  the record is in the long form, so a long record comes back long, with the same 32-bit
  length, and a short one short.
\<close>

theorem peekTag_returns_wire_encoding:
  assumes "valid_tag t"
  shows "peekTag (encode_tag t @ r) = (tag_code t, encode_tag t, r) \<and>
         (length_field (encode_tag t) = 63 \<longleftrightarrow> long_form t) \<and>
         length (encode_tag t) = (if long_form t then 6 else 2) + length (payload t)"
proof -
  have c: "tag_code t < 1024" using assms by (simp add: valid_tag_def)
  have 1: "peekTag (encode_tag t @ r) = (tag_code t, encode_tag t, r)"
    using assms by (rule peekTag_encode_tag)
  have 2: "length_field (encode_tag t) = 63 \<longleftrightarrow> long_form t"
  proof (cases "long_form t")
    case True
    have "(0x3f :: u16) < 64" by simp
    from len_of_word [OF this, of "tag_code t"]
    have "(ucast (push_bit 6 (tag_code t) OR 0x3f) :: u32) AND 0x3f = 63" by simp
    with True show ?thesis
      by (simp only: encode_tag_def if_True length_field_le16 simp_thms)
  next
    case False
    with assms have n: "length (payload t) < 63" by (simp add: valid_tag_def)
    have "length_field (encode_tag t) = of_nat (length (payload t))"
      using len_of_word [OF of_nat_u16_less_64 [OF n], of "tag_code t"]
        ucast_of_nat_u16_u32 [OF n] False
      by (simp only: encode_tag_def if_False length_field_le16)
    moreover have "(of_nat (length (payload t)) :: u32) \<noteq> 63"
      using of_nat_u32_lt_63 [OF n] by (auto simp: LONG_TAG_LENGTH_def)
    ultimately show ?thesis using False by simp
  qed
  have 3: "length (encode_tag t) = (if long_form t then 6 else 2) + length (payload t)"
    by (simp add: encode_tag_def length_le16 length_le32)
  from 1 2 3 show ?thesis by blast
qed

theorem peekTag_returns_wire_encoding_witness:
  "valid_tag (Tag 69 False [1, 0, 0, 0]) \<and>
   peekTag ([0x44, 0x11, 1, 0, 0, 0] @ [0, 0]) = (69, [0x44, 0x11, 1, 0, 0, 0], [0, 0]) \<and>
   valid_tag (Tag 77 True [7]) \<and>
   peekTag ([0x7f, 0x13, 1, 0, 0, 0, 7] @ [9]) = (77, [0x7f, 0x13, 1, 0, 0, 0, 7], [9])"
proof -
  have v: "valid_tag (Tag 69 False [1, 0, 0, 0])" "valid_tag (Tag 77 True [7])"
    by (simp_all add: valid_tag_def)
  have e: "encode_tag (Tag 69 False [1, 0, 0, 0]) = [0x44, 0x11, 1, 0, 0, 0]"
    "encode_tag (Tag 77 True [7]) = [0x7f, 0x13, 1, 0, 0, 0, 7]"
    by (simp_all add: encode_tag_def le16_def le32_def)
  show ?thesis
    using v peekTag_returns_wire_encoding [OF v(1), of "[0, 0]"]
      peekTag_returns_wire_encoding [OF v(2), of "[9]"]
    by (simp add: e)
qed

subsection \<open>One step of the loop on an encoded record\<close>

lemma write_tag_write_tag: "write_tag b (write_tag a s) = write_tag (a @ b) s"
  by (simp add: write_tag_def)

lemma telemetry_tag_bytes: "telemetry_tag = [0x42, 0x17, 0, 0]"
  by (simp add: telemetry_tag_def writeTelemetryTag_def TAG_TELEMETRY_def LONG_TAG_LENGTH_def
      le16_def)

lemma writeTelemetryTag_write_tag: "writeTelemetryTag s = write_tag telemetry_tag s"
  by (cases s)
    (simp add: telemetry_tag_bytes writeTelemetryTag_def TAG_TELEMETRY_def LONG_TAG_LENGTH_def
      le16_def write_tag_def)

lemma main_loop_copied:
  assumes "copied t"
  shows "main_loop (encode_tag t @ r) s = main_loop r (write_tag (encode_tag t) s)"
  using assms
  by (subst main_loop.simps) (simp add: copied_def peekTag_encode_tag)

lemma main_loop_end:
  assumes "valid_tag t" "tag_code t = TAG_END"
  shows "main_loop (encode_tag t @ r) s = Inr (write_tag (encode_tag t) s)"
  using assms
  by (subst main_loop.simps)
    (simp add: peekTag_encode_tag TAG_END_def TAG_TELEMETRY_def TAG_SIGNED_SWF_def
      TAG_FILE_ATTRIBUTES_def)

lemma main_loop_telemetry:
  assumes "valid_tag t" "tag_code t = TAG_TELEMETRY"
  shows "main_loop (encode_tag t @ r) s = Inl PanicTelemetryAlreadyEnabled"
  using assms by (subst main_loop.simps) (simp add: peekTag_encode_tag)

lemma main_loop_signed:
  assumes "valid_tag t" "tag_code t = TAG_SIGNED_SWF"
  shows "main_loop (encode_tag t @ r) s = Inl PanicSignedNotSupported"
  using assms
  by (subst main_loop.simps)
    (simp add: peekTag_encode_tag TAG_TELEMETRY_def TAG_SIGNED_SWF_def)

lemma main_loop_file_attributes:
  assumes "valid_tag t" "tag_code t = TAG_FILE_ATTRIBUTES" "valid_tag n"
  shows "main_loop (encode_tag t @ encode_tag n @ r) s =
         main_loop r (write_tag (encode_tag t @
           (if tag_code n = TAG_META then encode_tag n @ telemetry_tag
            else telemetry_tag @ encode_tag n)) s)"
  using assms
  by (subst main_loop.simps)
    (simp add: peekTag_encode_tag TAG_TELEMETRY_def TAG_SIGNED_SWF_def
      TAG_FILE_ATTRIBUTES_def writeTelemetryTag_write_tag write_tag_write_tag)

lemma encode_tags_Cons: "encode_tags (t # ts) = encode_tag t @ encode_tags ts"
  by (simp add: encode_tags_def)

lemma encode_tags_Nil: "encode_tags [] = []"
  by (simp add: encode_tags_def)

lemma write_tag_Nil: "write_tag [] s = s"
  by (simp add: write_tag_def)

lemma main_loop_copied_list:
  assumes "list_all copied ts"
  shows "main_loop (encode_tags ts @ r) s = main_loop r (write_tag (encode_tags ts) s)"
  using assms
proof (induction ts arbitrary: s)
  case Nil
  show ?case by (simp add: encode_tags_Nil write_tag_Nil)
next
  case (Cons t ts)
  then have t: "copied t" and ts: "list_all copied ts" by simp_all
  show ?case
    by (simp add: encode_tags_Cons main_loop_copied [OF t] Cons.IH [OF ts] write_tag_write_tag)
qed

subsection \<open>Whole streams\<close>

lemma main_loop_without_file_attributes:
  assumes "list_all scanned ts" "valid_tag e" "tag_code e = TAG_END"
  shows "main_loop (encode_tags ts @ encode_tag e @ r) s =
         (case find refused ts of
            None \<Rightarrow> Inr (write_tag (encode_tags ts @ encode_tag e) s)
          | Some t \<Rightarrow> Inl (panic_of t))"
  using assms(1)
proof (induction ts arbitrary: s)
  case Nil
  show ?case by (simp add: encode_tags_Nil main_loop_end [OF assms(2,3)])
next
  case (Cons t ts)
  then have "scanned t" and ts: "list_all scanned ts" by simp_all
  then have t: "valid_tag t" "tag_code t \<noteq> TAG_FILE_ATTRIBUTES" "tag_code t \<noteq> TAG_END"
    by (simp_all add: scanned_def)
  show ?case
  proof (cases "refused t")
    case True
    show ?thesis
    proof (cases "tag_code t = TAG_TELEMETRY")
      case tele: True
      from main_loop_telemetry [OF t(1) tele] True tele show ?thesis
        by (simp add: encode_tags_Cons panic_of_def)
    next
      case False
      with True have sg: "tag_code t = TAG_SIGNED_SWF" by (simp add: refused_def)
      from main_loop_signed [OF t(1) sg] True False show ?thesis
        by (simp add: encode_tags_Cons panic_of_def)
    qed
  next
    case False
    with t have "copied t" by (simp add: copied_def refused_def)
    from main_loop_copied [OF this] False show ?thesis
      by (simp add: encode_tags_Cons Cons.IH [OF ts] write_tag_write_tag split: option.split)
  qed
qed

lemma write_tag_counted:
  "write_tag bs (w, of_nat (8 + length w)) = (w @ bs, of_nat (8 + length (w @ bs)))"
  by (simp add: write_tag_def)

lemma main_body_stream:
  assumes "length frameData = unat (numberOfBytes frameSize)"
    and "hdr = frameSize # frameData @ le16 frameRate @ le16 frameCount"
  shows "main_body (hdr @ r) = main_loop r (hdr, of_nat (8 + length hdr))"
proof -
  have "io_ReadFull (frameData @ le16 frameRate @ le16 frameCount @ r) (unat (numberOfBytes frameSize))
        = (frameData, le16 frameRate @ le16 frameCount @ r)"
    using io_ReadFull_exact [of frameData] assms(1) by simp
  moreover have "(of_nat (length frameData) :: u32) = numberOfBytes frameSize"
    using assms(1) by simp
  ultimately show ?thesis
    by (simp add: main_body_def binary_Read_u16_le16 length_le16 assms(2))
qed

lemma main_no_compression:
  "main zr zw (NO_COMPRESSION @ [ver] @ le32 len @ body) =
     (case main_body body of
        Inl e \<Rightarrow> Inl e
      | Inr (written, n) \<Rightarrow> Inr (NO_COMPRESSION @ [ver] @ le32 n @ written))"
  by (simp add: main_def NO_COMPRESSION_def le32_def write_SwfHeader_def write_length_at_4_def
      split: sum.splits)

lemma main_zlib:
  assumes "zr compressed = Some body"
  shows "main zr zw (ZLIB_COMPRESSION @ [ver] @ le32 len @ compressed) =
     (case main_body body of
        Inl e \<Rightarrow> Inl e
      | Inr (written, n) \<Rightarrow> Inr (ZLIB_COMPRESSION @ [ver] @ le32 n @ zw written))"
  using assms
  by (simp add: main_def NO_COMPRESSION_def ZLIB_COMPRESSION_def le32_def write_SwfHeader_def
      write_length_at_4_def split: sum.splits)

lemma encode_tags_append: "encode_tags (xs @ ys) = encode_tags xs @ encode_tags ys"
  by (simp add: encode_tags_def)

lemma encode_tags_single: "encode_tags [t] = encode_tag t"
  by (simp add: encode_tags_def)

lemma main_body_without_file_attributes:
  assumes "list_all scanned ts" "valid_tag e" "tag_code e = TAG_END"
    and "length frameData = unat (numberOfBytes frameSize)"
    and "body = stream_body frameSize frameData frameRate frameCount (ts @ [e])"
  shows "main_body body =
         (case find refused ts of
            None \<Rightarrow> Inr (body, of_nat (8 + length body))
          | Some t \<Rightarrow> Inl (panic_of t))"
proof -
  define hdr where "hdr = frameSize # frameData @ le16 frameRate @ le16 frameCount"
  have body: "body = hdr @ encode_tags ts @ encode_tag e"
    by (simp add: assms(5) hdr_def stream_body_def encode_tags_append encode_tags_single)
  have "main_body body = main_loop (encode_tags ts @ encode_tag e @ []) (hdr, of_nat (8 + length hdr))"
    using main_body_stream [OF assms(4) hdr_def, of "encode_tags ts @ encode_tag e"]
    by (simp add: body)
  also have "\<dots> =
         (case find refused ts of
            None \<Rightarrow> Inr (write_tag (encode_tags ts @ encode_tag e) (hdr, of_nat (8 + length hdr)))
          | Some t \<Rightarrow> Inl (panic_of t))"
    by (rule main_loop_without_file_attributes [OF assms(1-3)])
  also have "write_tag (encode_tags ts @ encode_tag e) (hdr, of_nat (8 + length hdr)) =
         (body, of_nat (8 + length body))"
    by (simp only: write_tag_counted body)
  finally show ?thesis .
qed

text \<open>
  C7. A stream with no file-attributes record: the bounding box, frame rate and frame
  count, well-formed records none of which is a file-attributes or an end record, then
  the end record, and nothing after it. If one of the records is a telemetry or a
  signed-container marker, the run panics and there is no output. Otherwise the writer
  receives exactly the bytes the reader delivered, and for an uncompressed file the
  output file is the input file with bytes 4 to 7 replaced by the byte count: no
  telemetry record is inserted.
\<close>

theorem round_trip_without_file_attributes:
  assumes "list_all scanned ts" "valid_tag e" "tag_code e = TAG_END"
    and "length frameData = unat (numberOfBytes frameSize)"
    and "body = stream_body frameSize frameData frameRate frameCount (ts @ [e])"
  shows "main_body body =
           (case find refused ts of
              None \<Rightarrow> Inr (body, of_nat (8 + length body))
            | Some t \<Rightarrow> Inl (panic_of t)) \<and>
         main zr zw (NO_COMPRESSION @ [ver] @ le32 len @ body) =
           (case find refused ts of
              None \<Rightarrow> Inr (NO_COMPRESSION @ [ver] @ le32 (of_nat (8 + length body)) @ body)
            | Some t \<Rightarrow> Inl (panic_of t))"
proof -
  note mb = main_body_without_file_attributes [OF assms]
  have "main zr zw (NO_COMPRESSION @ [ver] @ le32 len @ body) =
           (case find refused ts of
              None \<Rightarrow> Inr (NO_COMPRESSION @ [ver] @ le32 (of_nat (8 + length body)) @ body)
            | Some t \<Rightarrow> Inl (panic_of t))"
    by (simp only: main_no_compression mb) (simp split: option.split)
  with mb show ?thesis by (rule conjI)
qed

theorem round_trip_without_file_attributes_witness:
  "list_all scanned [Tag 9 False [1, 2, 3]] \<and> valid_tag (Tag 0 False []) \<and>
   main (\<lambda>c. None) id
     [0x46, 0x57, 0x53, 10, 0, 0, 0, 0, 0, 0, 24, 1, 0, 0x43, 0x02, 1, 2, 3, 0, 0] =
   Inr [0x46, 0x57, 0x53, 10, 20, 0, 0, 0, 0, 0, 24, 1, 0, 0x43, 0x02, 1, 2, 3, 0, 0]"
proof -
  have a: "list_all scanned [Tag 9 False [1, 2, 3]]"
    by (simp add: scanned_def valid_tag_def TAG_FILE_ATTRIBUTES_def TAG_END_def)
  have b: "valid_tag (Tag 0 False [])" "tag_code (Tag 0 False []) = TAG_END"
    by (simp_all add: valid_tag_def TAG_END_def)
  have c: "length ([] :: bytes) = unat (numberOfBytes 0)"
    by (simp add: numberOfBytes_def nBits_def)
  have d: "[0, 0, 24, 1, 0, 0x43, 0x02, 1, 2, 3, 0, 0] =
           stream_body 0 [] 0x1800 1 ([Tag 9 False [1, 2, 3]] @ [Tag 0 False []])"
    by (simp add: stream_body_def encode_tags_def encode_tag_def le16_def)
  have e: "find refused [Tag 9 False [1, 2, 3]] = None"
    by (simp add: refused_def TAG_TELEMETRY_def TAG_SIGNED_SWF_def)
  note th = round_trip_without_file_attributes [OF a b c d, of "\<lambda>c. None" id 10 0,
      unfolded e option.case]
  from th have "main (\<lambda>c. None) id
     [0x46, 0x57, 0x53, 10, 0, 0, 0, 0, 0, 0, 24, 1, 0, 0x43, 0x02, 1, 2, 3, 0, 0] =
   Inr [0x46, 0x57, 0x53, 10, 20, 0, 0, 0, 0, 0, 24, 1, 0, 0x43, 0x02, 1, 2, 3, 0, 0]"
    by (simp add: NO_COMPRESSION_def le32_def)
  with a b(1) show ?thesis by blast
qed

text \<open>
  C2. A stream whose file-attributes record is reached by the scan: copied records, the
  file-attributes record, the record after it (of any type), then the rest. If the record
  after the file-attributes record is a metadata record, the loop writes file-attributes,
  metadata, telemetry record; otherwise it writes file-attributes, telemetry record, the
  record that followed; then it goes on with the rest. When the rest is copied records and
  the end record, the output is the input with the telemetry record at that place: every
  other record is copied in place, in the order of the input.
\<close>

theorem file_attributes_ordering:
  assumes "list_all copied pre"
    and "valid_tag fa" "tag_code fa = TAG_FILE_ATTRIBUTES"
    and "valid_tag nx"
    and "list_all copied post"
    and "valid_tag e" "tag_code e = TAG_END"
  shows "main_loop (encode_tags (pre @ [fa, nx]) @ rest) s =
         main_loop rest (write_tag
           (encode_tags pre @ encode_tag fa @
            (if tag_code nx = TAG_META then encode_tag nx @ telemetry_tag
             else telemetry_tag @ encode_tag nx)) s) \<and>
         main_loop (encode_tags (pre @ [fa, nx] @ post @ [e]) @ r) s =
         Inr (write_tag
           (encode_tags pre @ encode_tag fa @
            (if tag_code nx = TAG_META then encode_tag nx @ telemetry_tag
             else telemetry_tag @ encode_tag nx) @
            encode_tags post @ encode_tag e) s)"
proof -
  let ?mid = "if tag_code nx = TAG_META then encode_tag nx @ telemetry_tag
              else telemetry_tag @ encode_tag nx"
  have anchor: "main_loop (encode_tags (pre @ [fa, nx]) @ rest) s =
        main_loop rest (write_tag (encode_tags pre @ encode_tag fa @ ?mid) s)" for rest
  proof -
    have "main_loop (encode_tags (pre @ [fa, nx]) @ rest) s =
          main_loop (encode_tag fa @ encode_tag nx @ rest) (write_tag (encode_tags pre) s)"
      using main_loop_copied_list [OF assms(1)]
      by (simp add: encode_tags_append encode_tags_Cons encode_tags_Nil)
    also have "\<dots> = main_loop rest (write_tag (encode_tags pre @ encode_tag fa @ ?mid) s)"
      by (simp only: main_loop_file_attributes [OF assms(2-4)] write_tag_write_tag)
    finally show ?thesis .
  qed
  have "main_loop (encode_tags (pre @ [fa, nx] @ post @ [e]) @ r) s =
        main_loop (encode_tags (pre @ [fa, nx]) @ encode_tags post @ encode_tag e @ r) s"
    by (simp add: encode_tags_def)
  also have "\<dots> = main_loop (encode_tags post @ encode_tag e @ r)
          (write_tag (encode_tags pre @ encode_tag fa @ ?mid) s)"
    by (rule anchor)
  also have "\<dots> = Inr (write_tag
           (encode_tags pre @ encode_tag fa @ ?mid @ encode_tags post @ encode_tag e) s)"
    by (simp add: main_loop_copied_list [OF assms(5)] main_loop_end [OF assms(6,7)]
        write_tag_write_tag)
  finally show ?thesis using anchor [of rest] by (rule conjI [rotated])
qed

theorem file_attributes_ordering_witness:
  "list_all copied [Tag 9 False [1, 2, 3]] \<and> valid_tag (Tag 69 False [1, 0, 0, 0]) \<and>
   valid_tag (Tag 77 True [5]) \<and> valid_tag (Tag 1 False []) \<and> valid_tag (Tag 0 False []) \<and>
   main_loop [0x43, 2, 1, 2, 3, 0x44, 0x11, 1, 0, 0, 0, 0x7f, 0x13, 1, 0, 0, 0, 5, 0, 0] ([], 0) =
     Inr ([0x43, 2, 1, 2, 3, 0x44, 0x11, 1, 0, 0, 0, 0x7f, 0x13, 1, 0, 0, 0, 5,
           0x42, 0x17, 0, 0, 0, 0], 24) \<and>
   main_loop [0x43, 2, 1, 2, 3, 0x44, 0x11, 1, 0, 0, 0, 0x40, 0, 0, 0] ([], 0) =
     Inr ([0x43, 2, 1, 2, 3, 0x44, 0x11, 1, 0, 0, 0, 0x42, 0x17, 0, 0, 0x40, 0, 0, 0], 19)"
proof -
  have pre: "list_all copied [Tag 9 False [1, 2, 3]]"
    by (simp add: copied_def valid_tag_def TAG_FILE_ATTRIBUTES_def TAG_END_def
        TAG_TELEMETRY_def TAG_SIGNED_SWF_def)
  have fa: "valid_tag (Tag 69 False [1, 0, 0, 0])"
    "tag_code (Tag 69 False [1, 0, 0, 0]) = TAG_FILE_ATTRIBUTES"
    by (simp_all add: valid_tag_def TAG_FILE_ATTRIBUTES_def)
  have nx: "valid_tag (Tag 77 True [5])" "valid_tag (Tag 1 False [])"
    by (simp_all add: valid_tag_def)
  have post: "list_all copied []" by simp
  have e: "valid_tag (Tag 0 False [])" "tag_code (Tag 0 False []) = TAG_END"
    by (simp_all add: valid_tag_def TAG_END_def)
  have enc: "encode_tags ([Tag 9 False [1, 2, 3]] @ [Tag 69 False [1, 0, 0, 0], Tag 77 True [5]] @
               [] @ [Tag 0 False []]) @ [] =
             [0x43, 2, 1, 2, 3, 0x44, 0x11, 1, 0, 0, 0, 0x7f, 0x13, 1, 0, 0, 0, 5, 0, 0]"
    "encode_tags ([Tag 9 False [1, 2, 3]] @ [Tag 69 False [1, 0, 0, 0], Tag 1 False []] @
               [] @ [Tag 0 False []]) @ [] =
             [0x43, 2, 1, 2, 3, 0x44, 0x11, 1, 0, 0, 0, 0x40, 0, 0, 0]"
    by (simp_all add: encode_tags_def encode_tag_def le16_def le32_def)
  have out: "write_tag (encode_tags [Tag 9 False [1, 2, 3]] @ encode_tag (Tag 69 False [1, 0, 0, 0]) @
               (if tag_code (Tag 77 True [5]) = TAG_META
                then encode_tag (Tag 77 True [5]) @ telemetry_tag
                else telemetry_tag @ encode_tag (Tag 77 True [5])) @
               encode_tags [] @ encode_tag (Tag 0 False [])) ([], 0) =
             ([0x43, 2, 1, 2, 3, 0x44, 0x11, 1, 0, 0, 0, 0x7f, 0x13, 1, 0, 0, 0, 5,
               0x42, 0x17, 0, 0, 0, 0], 24)"
    "write_tag (encode_tags [Tag 9 False [1, 2, 3]] @ encode_tag (Tag 69 False [1, 0, 0, 0]) @
               (if tag_code (Tag 1 False []) = TAG_META
                then encode_tag (Tag 1 False []) @ telemetry_tag
                else telemetry_tag @ encode_tag (Tag 1 False [])) @
               encode_tags [] @ encode_tag (Tag 0 False [])) ([], 0) =
             ([0x43, 2, 1, 2, 3, 0x44, 0x11, 1, 0, 0, 0, 0x42, 0x17, 0, 0, 0x40, 0, 0, 0], 19)"
    by (simp_all add: encode_tags_def encode_tag_def le16_def le32_def telemetry_tag_bytes
        write_tag_def TAG_META_def)
  have 1: "main_loop [0x43, 2, 1, 2, 3, 0x44, 0x11, 1, 0, 0, 0, 0x7f, 0x13, 1, 0, 0, 0, 5, 0, 0] ([], 0) =
     Inr ([0x43, 2, 1, 2, 3, 0x44, 0x11, 1, 0, 0, 0, 0x7f, 0x13, 1, 0, 0, 0, 5,
           0x42, 0x17, 0, 0, 0, 0], 24)"
    using file_attributes_ordering [OF pre fa nx(1) post e, THEN conjunct2, of "[]" "([], 0)"]
    by (simp only: enc out)
  have 2: "main_loop [0x43, 2, 1, 2, 3, 0x44, 0x11, 1, 0, 0, 0, 0x40, 0, 0, 0] ([], 0) =
     Inr ([0x43, 2, 1, 2, 3, 0x44, 0x11, 1, 0, 0, 0, 0x42, 0x17, 0, 0, 0x40, 0, 0, 0], 19)"
    using file_attributes_ordering [OF pre fa nx(2) post e, THEN conjunct2, of "[]" "([], 0)"]
    by (simp only: enc out)
  from pre fa(1) nx e(1) 1 2 show ?thesis by blast
qed

subsection \<open>Several file-attributes records\<close>

lemmas TAG_defs = TAG_TELEMETRY_def TAG_SIGNED_SWF_def TAG_FILE_ATTRIBUTES_def TAG_META_def
  TAG_END_def

lemma encode_telemetry_record: "encode_tag telemetry_record = telemetry_tag"
  by (simp add: telemetry_record_def encode_tag_def telemetry_tag_bytes TAG_TELEMETRY_def le16_def)

lemma followers_free_tail: "followers_free (b # ts) \<Longrightarrow> followers_free ts"
  by (cases ts) simp_all

lemma refused_not_file_attributes: "refused t \<Longrightarrow> tag_code t \<noteq> TAG_FILE_ATTRIBUTES"
  by (auto simp: refused_def TAG_defs)

lemma main_loop_refused:
  assumes "valid_tag t" "refused t"
  shows "main_loop (encode_tag t @ r) s = Inl (panic_of t)"
proof (cases "tag_code t = TAG_TELEMETRY")
  case True
  from main_loop_telemetry [OF assms(1) True] True show ?thesis by (simp add: panic_of_def)
next
  case False
  with assms(2) have sg: "tag_code t = TAG_SIGNED_SWF" by (simp add: refused_def)
  from main_loop_signed [OF assms(1) sg] False show ?thesis by (simp add: panic_of_def)
qed

lemma before_end_copied:
  "before_end t \<Longrightarrow> \<not> refused t \<Longrightarrow> tag_code t \<noteq> TAG_FILE_ATTRIBUTES \<Longrightarrow> copied t"
  by (simp add: before_end_def copied_def refused_def)

lemma after_records_Nil: "after_records [] e r s = Inr (write_tag (encode_tag e) s)"
  by (simp add: after_records_def encode_tags_def)

lemma after_records_refused: "refused a \<Longrightarrow> after_records (a # ts) e r s = Inl (panic_of a)"
  by (simp add: after_records_def)

lemma after_records_copied:
  assumes "\<not> refused a" "tag_code a \<noteq> TAG_FILE_ATTRIBUTES"
  shows "after_records (a # ts) e r s = after_records ts e r (write_tag (encode_tag a) s)"
proof (cases ts)
  case Nil
  with assms show ?thesis
    by (simp add: after_records_def encode_tags_def write_tag_write_tag)
next
  case (Cons b ts')
  with assms show ?thesis
    by (simp add: after_records_def encode_tags_def write_tag_write_tag split: option.split)
qed

lemma after_records_last:
  assumes "tag_code a = TAG_FILE_ATTRIBUTES"
  shows "after_records [a] e r s =
         main_loop r (write_tag (encode_tag a @ telemetry_tag @ encode_tag e) s)"
  using assms refused_not_file_attributes [of a]
  by (auto simp: after_records_def encode_tags_def encode_telemetry_record)

lemma after_records_metadata:
  assumes "tag_code a = TAG_FILE_ATTRIBUTES" "tag_code b = TAG_META"
  shows "after_records (a # b # ts) e r s =
         after_records ts e r (write_tag (encode_tag a @ encode_tag b @ telemetry_tag) s)"
proof -
  have "\<not> refused a" "\<not> refused b" using assms by (auto simp: refused_def TAG_defs)
  moreover have "ends_with_file_attributes (a # b # ts) = ends_with_file_attributes ts"
    using assms by (cases ts) (simp_all add: TAG_defs)
  ultimately show ?thesis using assms
    by (simp add: after_records_def encode_tags_def write_tag_write_tag encode_telemetry_record
        split: option.split)
qed

lemma after_records_other:
  assumes "tag_code a = TAG_FILE_ATTRIBUTES" "tag_code b \<noteq> TAG_META"
  shows "after_records (a # b # ts) e r s =
         after_records (b # ts) e r (write_tag (encode_tag a @ telemetry_tag) s)"
proof -
  have "\<not> refused a" using assms by (auto simp: refused_def TAG_defs)
  then show ?thesis using assms
    by (simp add: after_records_def encode_tags_def write_tag_write_tag encode_telemetry_record
        split: option.split)
qed

lemma main_loop_after_records:
  assumes "valid_tag e" "tag_code e = TAG_END"
  shows "list_all before_end ts \<Longrightarrow> followers_free ts \<Longrightarrow>
         main_loop (encode_tags ts @ encode_tag e @ r) s = after_records ts e r s"
proof (induction ts arbitrary: s rule: insert_after_each.induct)
  case 1
  show ?case by (simp add: encode_tags_Nil main_loop_end [OF assms] after_records_Nil)
next
  case (2 a)
  then have a: "before_end a" by simp
  then have va: "valid_tag a" by (simp add: before_end_def)
  consider (panic) "refused a" | (anchor) "tag_code a = TAG_FILE_ATTRIBUTES"
    | (other) "\<not> refused a" "tag_code a \<noteq> TAG_FILE_ATTRIBUTES" by blast
  then show ?case
  proof cases
    case panic
    then show ?thesis
      by (simp add: encode_tags_Cons main_loop_refused [OF va] after_records_refused)
  next
    case anchor
    have "tag_code e \<noteq> TAG_META" using assms(2) by (simp add: TAG_defs)
    with main_loop_file_attributes [OF va anchor assms(1), of r s] show ?thesis
      by (simp add: encode_tags_Cons encode_tags_Nil after_records_last [OF anchor])
  next
    case other
    from main_loop_copied [OF before_end_copied [OF a other]] show ?thesis
      by (simp add: encode_tags_Cons encode_tags_Nil after_records_copied [OF other]
          main_loop_end [OF assms] after_records_Nil)
  qed
next
  case (3 a b ts)
  from "3.prems" have a: "before_end a" and b: "before_end b" and ts: "list_all before_end ts"
    and fb: "followers_free (b # ts)" by simp_all
  have va: "valid_tag a" and vb: "valid_tag b" using a b by (simp_all add: before_end_def)
  consider (panic) "refused a" | (anchor) "tag_code a = TAG_FILE_ATTRIBUTES"
    | (other) "\<not> refused a" "tag_code a \<noteq> TAG_FILE_ATTRIBUTES" by blast
  then show ?case
  proof cases
    case panic
    then show ?thesis
      by (simp add: encode_tags_Cons main_loop_refused [OF va] after_records_refused)
  next
    case other
    from "3.IH"(3) [OF other(2) _ fb] b ts
    have "main_loop (encode_tags (b # ts) @ encode_tag e @ r) (write_tag (encode_tag a) s) =
          after_records (b # ts) e r (write_tag (encode_tag a) s)" by simp
    with main_loop_copied [OF before_end_copied [OF a other]] show ?thesis
      by (simp add: encode_tags_Cons after_records_copied [OF other])
  next
    case anchor
    with "3.prems" have nb: "\<not> refused b" "tag_code b \<noteq> TAG_FILE_ATTRIBUTES" by simp_all
    note step = main_loop_file_attributes [OF va anchor vb]
    show ?thesis
    proof (cases "tag_code b = TAG_META")
      case True
      from "3.IH"(1) [OF anchor True ts followers_free_tail [OF fb]] step True
      show ?thesis
        by (simp add: encode_tags_Cons after_records_metadata [OF anchor True])
    next
      case False
      have cb: "copied b" using b nb by (rule before_end_copied)
      have "main_loop (encode_tags (a # b # ts) @ encode_tag e @ r) s =
            main_loop (encode_tags ts @ encode_tag e @ r)
              (write_tag (encode_tag b) (write_tag (encode_tag a @ telemetry_tag) s))"
        using step False by (simp add: encode_tags_Cons write_tag_write_tag)
      also have "\<dots> = main_loop (encode_tags (b # ts) @ encode_tag e @ r)
              (write_tag (encode_tag a @ telemetry_tag) s)"
        using main_loop_copied [OF cb] by (simp add: encode_tags_Cons)
      also have "\<dots> = after_records (b # ts) e r (write_tag (encode_tag a @ telemetry_tag) s)"
        using "3.IH"(2) [OF anchor False _ fb] b ts by simp
      finally show ?thesis
        by (simp add: after_records_other [OF anchor False])
    qed
  qed
qed

lemma count_code_Cons:
  "count_code c (t # ts) = (if tag_code t = c then Suc (count_code c ts) else count_code c ts)"
  by (simp add: count_code_def)

lemma count_code_Nil: "count_code c [] = 0"
  by (simp add: count_code_def)

lemma count_insert_after_each_unrefused:
  "list_all (\<lambda>t. tag_code t \<noteq> TAG_TELEMETRY) ts \<Longrightarrow>
   count_code TAG_TELEMETRY (insert_after_each ts) = count_code TAG_FILE_ATTRIBUTES ts"
proof (induction ts rule: insert_after_each.induct)
  case 1
  show ?case by (simp add: count_code_Nil)
next
  case (2 a)
  then show ?case
    by (auto simp: count_code_Cons count_code_Nil telemetry_record_def
        TAG_TELEMETRY_def TAG_FILE_ATTRIBUTES_def)
next
  case (3 a b ts)
  then show ?case
    by (auto simp: count_code_Cons telemetry_record_def
        TAG_TELEMETRY_def TAG_FILE_ATTRIBUTES_def TAG_META_def)
qed

lemma count_insert_after_each:
  assumes "find refused ts = None"
  shows "count_code TAG_TELEMETRY (insert_after_each ts) = count_code TAG_FILE_ATTRIBUTES ts"
proof -
  from assms have "\<forall>t \<in> set ts. \<not> refused t" by (simp add: find_None_iff)
  then have "list_all (\<lambda>t. tag_code t \<noteq> TAG_TELEMETRY) ts"
    by (simp add: list_all_iff refused_def)
  then show ?thesis by (rule count_insert_after_each_unrefused)
qed

subsection \<open>The byte counter\<close>

lemma counted_write_tag: "counted s \<Longrightarrow> counted (write_tag bs s)"
  by (simp add: counted_def write_tag_def)

lemma counted_writeTelemetryTag: "counted s \<Longrightarrow> counted (writeTelemetryTag s)"
  by (simp add: writeTelemetryTag_write_tag counted_write_tag)

lemma main_loop_counted:
  "counted s \<Longrightarrow> main_loop reader s = Inr s' \<Longrightarrow> counted s'"
proof (induction reader s rule: main_loop.induct)
  case (1 reader s)
  obtain tagType tagData r1 where p: "peekTag reader = (tagType, tagData, r1)"
    by (cases "peekTag reader")
  obtain nextTagType nextTagData r2 where q: "peekTag r1 = (nextTagType, nextTagData, r2)"
    by (cases "peekTag r1")
  note c = counted_write_tag counted_writeTelemetryTag
  consider (panic) "tagType = TAG_TELEMETRY \<or> tagType = TAG_SIGNED_SWF"
    | (anchor) "tagType \<noteq> TAG_TELEMETRY" "tagType \<noteq> TAG_SIGNED_SWF" "tagType = TAG_FILE_ATTRIBUTES"
    | (stop) "tagType \<noteq> TAG_TELEMETRY" "tagType \<noteq> TAG_SIGNED_SWF"
        "tagType \<noteq> TAG_FILE_ATTRIBUTES" "tagType = TAG_END"
    | (other) "tagType \<noteq> TAG_TELEMETRY" "tagType \<noteq> TAG_SIGNED_SWF"
        "tagType \<noteq> TAG_FILE_ATTRIBUTES" "tagType \<noteq> TAG_END"
    by blast
  then show ?case
  proof cases
    case panic
    with "1.prems"(2) p show ?thesis
      by (subst (asm) main_loop.simps) (auto simp: TAG_defs)
  next
    case anchor
    define s1 where "s1 = write_tag tagData s"
    define s2 where "s2 = (if nextTagType = TAG_META then write_tag nextTagData s1 else s1)"
    define s3 where "s3 = writeTelemetryTag s2"
    define s4 where "s4 = (if nextTagType \<noteq> TAG_META then write_tag nextTagData s3 else s3)"
    have "counted s4"
      unfolding s4_def s3_def s2_def s1_def using "1.prems"(1) by (simp add: c)
    moreover have "main_loop r2 s4 = Inr s'"
      using "1.prems"(2) p q anchor unfolding s4_def s3_def s2_def s1_def
      by (subst (asm) main_loop.simps) (simp add: Let_def)
    ultimately show ?thesis
      by (rule "1.IH"(1) [OF p [symmetric] refl anchor q [symmetric] refl s1_def s2_def s3_def s4_def])
  next
    case stop
    with "1.prems" p show ?thesis
      by (subst (asm) main_loop.simps) (auto simp: c)
  next
    case other
    have "main_loop r1 (write_tag tagData s) = Inr s'"
      using "1.prems"(2) p other by (subst (asm) main_loop.simps) simp
    with "1.IH"(2) [OF p [symmetric] refl other] "1.prems"(1) show ?thesis
      by (simp add: c)
  qed
qed

lemma main_body_counted:
  assumes "main_body reader = Inr (written, n)"
  shows "n = of_nat (8 + length written)"
proof -
  define frameSize where "frameSize = (case fst (binary_Read_u8 reader) of Some b \<Rightarrow> b | None \<Rightarrow> 0)"
  define r1 where "r1 = snd (binary_Read_u8 reader)"
  define frameData where "frameData = fst (io_ReadFull r1 (unat (numberOfBytes frameSize)))"
  define r2 where "r2 = snd (io_ReadFull r1 (unat (numberOfBytes frameSize)))"
  define frameRate where "frameRate = (case fst (binary_Read_u16 r2) of Some w \<Rightarrow> w | None \<Rightarrow> 0)"
  define r3 where "r3 = snd (binary_Read_u16 r2)"
  define frameCount where "frameCount = (case fst (binary_Read_u16 r3) of Some w \<Rightarrow> w | None \<Rightarrow> 0)"
  define r4 where "r4 = snd (binary_Read_u16 r3)"
  define s0 :: wstate where
    "s0 = ([frameSize] @ frameData @ le16 frameRate @ le16 frameCount,
           0 + 8 + 1 + numberOfBytes frameSize + 2 + 2)"
  have run: "main_body reader = main_loop r4 s0"
    by (simp add: main_body_def split_beta Let_def s0_def r4_def frameCount_def r3_def
        frameRate_def r2_def frameData_def r1_def frameSize_def)
  have "length frameData = unat (numberOfBytes frameSize)"
    by (simp add: frameData_def io_ReadFull_length)
  then have "counted s0"
    by (simp add: counted_def s0_def length_le16)
  from main_loop_counted [OF this] assms run have "counted (written, n)" by simp
  then show ?thesis by (simp add: counted_def)
qed

text \<open>
  C5, as amended. For every run that reaches the end of the loop, the counter is the count
  of uncompressed bytes (the 8 bytes of the header and every byte given to the writer)
  as a 32-bit value, that is, modulo \<open>2 ^ 32\<close>; it is this value that is written, little
  endian, at offset 4 of the output file, before the bytes of the writer (for a
  compressed file, before what the zlib writer made of them).
\<close>

theorem patched_length_is_byte_count_mod_2_32:
  assumes "main_body reader = Inr (written, n)"
  shows "n = of_nat (8 + length written) \<and>
         unat n = (8 + length written) mod 2 ^ 32 \<and>
         main zr zw (NO_COMPRESSION @ [ver] @ le32 len @ reader) =
           Inr (NO_COMPRESSION @ [ver] @ le32 n @ written) \<and>
         (zr compressed = Some reader \<longrightarrow>
          main zr zw (ZLIB_COMPRESSION @ [ver] @ le32 len @ compressed) =
            Inr (ZLIB_COMPRESSION @ [ver] @ le32 n @ zw written))"
proof -
  have n: "n = of_nat (8 + length written)" using assms by (rule main_body_counted)
  have u: "unat n = (8 + length written) mod 2 ^ 32"
    unfolding n by (simp only: unat_of_nat) simp
  have f: "main zr zw (NO_COMPRESSION @ [ver] @ le32 len @ reader) =
           Inr (NO_COMPRESSION @ [ver] @ le32 n @ written)"
    by (simp only: main_no_compression assms) simp
  have z: "zr compressed = Some reader \<longrightarrow>
          main zr zw (ZLIB_COMPRESSION @ [ver] @ le32 len @ compressed) =
            Inr (ZLIB_COMPRESSION @ [ver] @ le32 n @ zw written)"
  proof
    assume c: "zr compressed = Some reader"
    from main_zlib [of zr compressed reader, OF c] show "main zr zw (ZLIB_COMPRESSION @ [ver] @ le32 len @ compressed) =
            Inr (ZLIB_COMPRESSION @ [ver] @ le32 n @ zw written)"
      by (simp only: assms) simp
  qed
  from n u f z show ?thesis by blast
qed

text \<open>The definitions that evaluate a run on concrete bytes.\<close>

lemmas eval_defs = main_def main_body_def numberOfBytes_def nBits_def main_loop.simps peekTag_def
  io_ReadFull_def of_le16_def of_le32_def le16_def le32_def write_tag_def writeTelemetryTag_def
  TAG_defs LONG_TAG_LENGTH_def NO_COMPRESSION_def ZLIB_COMPRESSION_def LZMA_COMPRESSION_def
  write_SwfHeader_def write_length_at_4_def

text \<open>The theorem at a stream with one file-attributes record, plain and compressed.\<close>

theorem patched_length_is_byte_count_mod_2_32_witness:
  "main_body [0, 0, 24, 1, 0, 0x44, 0x11, 1, 0, 0, 0, 0x40, 0, 0, 0] =
     Inr ([0, 0, 24, 1, 0, 0x44, 0x11, 1, 0, 0, 0, 0x42, 0x17, 0, 0, 0x40, 0, 0, 0], 27) \<and>
   (27 :: u32) = of_nat (8 + length [0, 0, 24, 1, 0, 0x44, 0x11, 1, 0, 0, 0, 0x42, 0x17, 0, 0, 0x40, 0, 0, 0 :: u8]) \<and>
   main (\<lambda>c. Some [0, 0, 24, 1, 0, 0x44, 0x11, 1, 0, 0, 0, 0x40, 0, 0, 0]) id
     ([0x46, 0x57, 0x53] @ [10] @ [0, 0, 0, 0] @ [0, 0, 24, 1, 0, 0x44, 0x11, 1, 0, 0, 0, 0x40, 0, 0, 0]) =
     Inr ([0x46, 0x57, 0x53] @ [10] @ [27, 0, 0, 0] @
          [0, 0, 24, 1, 0, 0x44, 0x11, 1, 0, 0, 0, 0x42, 0x17, 0, 0, 0x40, 0, 0, 0]) \<and>
   main (\<lambda>c. Some [0, 0, 24, 1, 0, 0x44, 0x11, 1, 0, 0, 0, 0x40, 0, 0, 0]) id
     ([0x43, 0x57, 0x53] @ [10] @ [0, 0, 0, 0] @ [1, 2, 3]) =
     Inr ([0x43, 0x57, 0x53] @ [10] @ [27, 0, 0, 0] @
          id [0, 0, 24, 1, 0, 0x44, 0x11, 1, 0, 0, 0, 0x42, 0x17, 0, 0, 0x40, 0, 0, 0])"
proof -
  have run: "main_body [0, 0, 24, 1, 0, 0x44, 0x11, 1, 0, 0, 0, 0x40, 0, 0, 0] =
     Inr ([0, 0, 24, 1, 0, 0x44, 0x11, 1, 0, 0, 0, 0x42, 0x17, 0, 0, 0x40, 0, 0, 0], 27)"
    by (simp add: eval_defs)
  have l: "le32 0 = [0, 0, 0, 0]" "le32 27 = [27, 0, 0, 0]" by (simp_all add: le32_def)
  from patched_length_is_byte_count_mod_2_32 [OF run,
      where zr = "\<lambda>c. Some [0, 0, 24, 1, 0, 0x44, 0x11, 1, 0, 0, 0, 0x40, 0, 0, 0]"
        and compressed = "[1, 2, 3]" and zw = id and ver = 10 and len = 0]
  show ?thesis
    unfolding l NO_COMPRESSION_def ZLIB_COMPRESSION_def using run by blast
qed

text \<open>
  C5 as stated fails where the count passes \<open>2 ^ 32\<close>. The first stream below is
  well-formed: the bounding box, frame rate and frame count, one long record of type 1 with
  \<open>2 ^ 32 - 1\<close> bytes of payload, and the end record. The second is its first 11 bytes
  only and ends right after the length of the long record; the buffer of the declared size
  is written in full all the same. In both runs \<open>2 ^ 32 + 20\<close> bytes are counted in all,
  the counter is 20, and 20 is what is written at offset 4.
\<close>

theorem patched_length_wraps_counterexample:
  "main_body ([0, 0, 0, 0, 0, 0x7f, 0, 0xff, 0xff, 0xff, 0xff] @ replicate 4294967295 0 @ [0, 0]) =
     Inr ([0, 0, 0, 0, 0, 0x7f, 0, 0xff, 0xff, 0xff, 0xff] @ replicate 4294967295 0 @ [0, 0], 20) \<and>
   main_body [0, 0, 0, 0, 0, 0x7f, 0, 0xff, 0xff, 0xff, 0xff] =
     Inr ([0, 0, 0, 0, 0, 0x7f, 0, 0xff, 0xff, 0xff, 0xff] @ replicate 4294967295 0 @ [0, 0], 20) \<and>
   main (\<lambda>c. None) id
     [0x46, 0x57, 0x53, 10, 0, 0, 0, 0, 0, 0, 0, 0, 0, 0x7f, 0, 0xff, 0xff, 0xff, 0xff] =
     Inr ([0x46, 0x57, 0x53, 10, 20, 0, 0, 0] @
          [0, 0, 0, 0, 0, 0x7f, 0, 0xff, 0xff, 0xff, 0xff] @ replicate 4294967295 0 @ [0, 0]) \<and>
   8 + length ([0, 0, 0, 0, 0, 0x7f, 0, 0xff, 0xff, 0xff, 0xff] @ replicate 4294967295 (0 :: u8) @ [0, 0])
     = 4294967316 \<and>
   unat (20 :: u32) \<noteq> 4294967316"
  by (simp add: eval_defs)

subsection \<open>Where the telemetry record is inserted\<close>

text \<open>
  C10, as amended. Take a stream of well-formed records before its end record in which no
  file-attributes record is immediately followed by a telemetry marker, a signed-container
  marker or another file-attributes record. If the stream has a telemetry or a
  signed-container marker, the scan reaches the first of them and the run panics.
  Otherwise the loop writes the records with a telemetry record inserted after each
  file-attributes record (after its metadata record when one follows), the end record
  included: the insertion fires for every file-attributes record, and the records written
  have as many telemetry records as the input has file-attributes records. This holds also
  for a file-attributes record directly before the end record; there the end record is
  read by the lookahead and the loop goes on with the bytes after it.
\<close>

theorem telemetry_after_each_file_attributes_apart:
  assumes "list_all before_end ts" "followers_free ts" "valid_tag e" "tag_code e = TAG_END"
  shows "main_loop (encode_tags (ts @ [e]) @ r) s =
           (case find refused ts of
              Some t \<Rightarrow> Inl (panic_of t)
            | None \<Rightarrow>
                if ends_with_file_attributes ts
                then main_loop r (write_tag (encode_tags (insert_after_each ts @ [e])) s)
                else Inr (write_tag (encode_tags (insert_after_each ts @ [e])) s)) \<and>
         (find refused ts = None \<longrightarrow>
          count_code TAG_TELEMETRY (insert_after_each ts) = count_code TAG_FILE_ATTRIBUTES ts)"
  using main_loop_after_records [OF assms(3,4,1,2), of r s] count_insert_after_each [of ts]
  by (simp add: encode_tags_append encode_tags_single after_records_def)

text \<open>
  Three streams: two file-attributes records, the second followed by a metadata record;
  two file-attributes records, the second directly before the end record, with records
  after the end record; and a stream with a signed-container marker, where the run panics.
\<close>

theorem telemetry_after_each_file_attributes_apart_witness:
  "list_all before_end [Tag 69 False [1, 0, 0, 0], Tag 1 False [], Tag 69 False [1, 0, 0, 0], Tag 77 True [5]] \<and>
   followers_free [Tag 69 False [1, 0, 0, 0], Tag 1 False [], Tag 69 False [1, 0, 0, 0], Tag 77 True [5]] \<and>
   main_loop [0x44, 0x11, 1, 0, 0, 0, 0x40, 0, 0x44, 0x11, 1, 0, 0, 0, 0x7f, 0x13, 1, 0, 0, 0, 5, 0, 0]
     ([], 0) =
   Inr ([0x44, 0x11, 1, 0, 0, 0, 0x42, 0x17, 0, 0, 0x40, 0,
         0x44, 0x11, 1, 0, 0, 0, 0x7f, 0x13, 1, 0, 0, 0, 5, 0x42, 0x17, 0, 0, 0, 0], 31) \<and>
   count_code TAG_FILE_ATTRIBUTES
     [Tag 69 False [1, 0, 0, 0], Tag 1 False [], Tag 69 False [1, 0, 0, 0], Tag 77 True [5]] = 2 \<and>
   count_code TAG_TELEMETRY (insert_after_each
     [Tag 69 False [1, 0, 0, 0], Tag 1 False [], Tag 69 False [1, 0, 0, 0], Tag 77 True [5]]) = 2 \<and>
   list_all before_end [Tag 69 False [1, 0, 0, 0], Tag 1 False [], Tag 69 False [1, 0, 0, 0]] \<and>
   followers_free [Tag 69 False [1, 0, 0, 0], Tag 1 False [], Tag 69 False [1, 0, 0, 0]] \<and>
   main_loop [0x44, 0x11, 1, 0, 0, 0, 0x40, 0, 0x44, 0x11, 1, 0, 0, 0, 0, 0, 0x40, 0, 0, 0] ([], 0) =
   Inr ([0x44, 0x11, 1, 0, 0, 0, 0x42, 0x17, 0, 0, 0x40, 0,
         0x44, 0x11, 1, 0, 0, 0, 0x42, 0x17, 0, 0, 0, 0, 0x40, 0, 0, 0], 28) \<and>
   count_code TAG_TELEMETRY (insert_after_each
     [Tag 69 False [1, 0, 0, 0], Tag 1 False [], Tag 69 False [1, 0, 0, 0]]) = 2 \<and>
   list_all before_end [Tag 1 False [], Tag 94 False [], Tag 69 False [1, 0, 0, 0]] \<and>
   followers_free [Tag 1 False [], Tag 94 False [], Tag 69 False [1, 0, 0, 0]] \<and>
   main_loop [0x40, 0, 0x80, 0x17, 0x44, 0x11, 1, 0, 0, 0, 0, 0] ([], 0) = Inl PanicSignedNotSupported"
proof -
  let ?fa = "Tag 69 False [1, 0, 0, 0]"
  let ?ts = "[?fa, Tag 1 False [], ?fa, Tag 77 True [5]]"
  let ?us = "[?fa, Tag 1 False [], ?fa]"
  let ?vs = "[Tag 1 False [], Tag 94 False [], ?fa]"
  let ?e = "Tag 0 False []"
  have p: "list_all before_end ?ts" "list_all before_end ?us" "list_all before_end ?vs"
    by (simp_all add: before_end_def valid_tag_def TAG_defs)
  have a: "followers_free ?ts" "followers_free ?us" "followers_free ?vs"
    by (simp_all add: refused_def TAG_defs)
  have e: "valid_tag ?e" "tag_code ?e = TAG_END" by (simp_all add: valid_tag_def TAG_defs)
  have f: "find refused ?ts = None" "find refused ?us = None"
    "find refused ?vs = Some (Tag 94 False [])"
    by (simp_all add: refused_def TAG_defs)
  have w: "ends_with_file_attributes ?ts = False" "ends_with_file_attributes ?us = True"
    by (simp_all add: TAG_defs)
  have n: "count_code TAG_FILE_ATTRIBUTES ?ts = 2" "count_code TAG_FILE_ATTRIBUTES ?us = 2"
    by (simp_all add: count_code_def TAG_defs)
  have i: "encode_tags (?ts @ [?e]) @ [] =
    [0x44, 0x11, 1, 0, 0, 0, 0x40, 0, 0x44, 0x11, 1, 0, 0, 0, 0x7f, 0x13, 1, 0, 0, 0, 5, 0, 0]"
    "encode_tags (?us @ [?e]) @ [0x40, 0, 0, 0] =
    [0x44, 0x11, 1, 0, 0, 0, 0x40, 0, 0x44, 0x11, 1, 0, 0, 0, 0, 0, 0x40, 0, 0, 0]"
    "encode_tags (?vs @ [?e]) @ [] = [0x40, 0, 0x80, 0x17, 0x44, 0x11, 1, 0, 0, 0, 0, 0]"
    by (simp_all add: encode_tags_def encode_tag_def le16_def le32_def)
  have out: "write_tag (encode_tags (insert_after_each ?ts @ [?e])) ([], 0) =
     ([0x44, 0x11, 1, 0, 0, 0, 0x42, 0x17, 0, 0, 0x40, 0,
         0x44, 0x11, 1, 0, 0, 0, 0x7f, 0x13, 1, 0, 0, 0, 5, 0x42, 0x17, 0, 0, 0, 0], 31)"
    "write_tag (encode_tags (insert_after_each ?us @ [?e])) ([], 0) =
     ([0x44, 0x11, 1, 0, 0, 0, 0x42, 0x17, 0, 0, 0x40, 0,
       0x44, 0x11, 1, 0, 0, 0, 0x42, 0x17, 0, 0, 0, 0], 24)"
    by (simp_all add: encode_tags_def encode_tag_def le16_def le32_def write_tag_def
        telemetry_record_def TAG_defs)
  have pn: "panic_of (Tag 94 False []) = PanicSignedNotSupported"
    by (simp add: panic_of_def TAG_defs)
  note t1 = telemetry_after_each_file_attributes_apart [OF p(1) a(1) e, of "[]" "([], 0)",
      unfolded f w i out n option.case if_False]
  note t2 = telemetry_after_each_file_attributes_apart [OF p(2) a(2) e, of "[0x40, 0, 0, 0]" "([], 0)",
      unfolded f w i out n option.case if_True]
  note t3 = telemetry_after_each_file_attributes_apart [OF p(3) a(3) e, of "[]" "([], 0)",
      unfolded f i option.case pn]
  have rest: "main_loop [0x40, 0, 0, 0]
     ([0x44, 0x11, 1, 0, 0, 0, 0x42, 0x17, 0, 0, 0x40, 0,
       0x44, 0x11, 1, 0, 0, 0, 0x42, 0x17, 0, 0, 0, 0], 24) =
   Inr ([0x44, 0x11, 1, 0, 0, 0, 0x42, 0x17, 0, 0, 0x40, 0,
         0x44, 0x11, 1, 0, 0, 0, 0x42, 0x17, 0, 0, 0, 0, 0x40, 0, 0, 0], 28)"
    by (simp add: eval_defs)
  from t1 t2 [unfolded rest] t3 p a n show ?thesis by blast
qed

text \<open>
  C10 as stated fails for two file-attributes records in a row, end record after them: the
  second one is read by the lookahead of the first and copied, and the output has one
  telemetry record for two file-attributes records.
\<close>

theorem telemetry_not_after_adjacent_file_attributes:
  "list_all before_end [Tag 69 False [1, 0, 0, 0], Tag 69 False [1, 0, 0, 0]] \<and>
   find refused [Tag 69 False [1, 0, 0, 0], Tag 69 False [1, 0, 0, 0]] = None \<and>
   count_code TAG_FILE_ATTRIBUTES [Tag 69 False [1, 0, 0, 0], Tag 69 False [1, 0, 0, 0]] = 2 \<and>
   encode_tags [Tag 69 False [1, 0, 0, 0], Tag 69 False [1, 0, 0, 0], Tag 0 False []] =
     [0x44, 0x11, 1, 0, 0, 0, 0x44, 0x11, 1, 0, 0, 0, 0, 0] \<and>
   main_loop [0x44, 0x11, 1, 0, 0, 0, 0x44, 0x11, 1, 0, 0, 0, 0, 0] ([], 0) =
     Inr ([0x44, 0x11, 1, 0, 0, 0, 0x42, 0x17, 0, 0, 0x44, 0x11, 1, 0, 0, 0, 0, 0], 18) \<and>
   [0x44, 0x11, 1, 0, 0, 0, 0x42, 0x17, 0, 0, 0x44, 0x11, 1, 0, 0, 0, 0, 0] =
     encode_tags [Tag 69 False [1, 0, 0, 0], telemetry_record, Tag 69 False [1, 0, 0, 0], Tag 0 False []] \<and>
   count_code TAG_TELEMETRY
     [Tag 69 False [1, 0, 0, 0], telemetry_record, Tag 69 False [1, 0, 0, 0], Tag 0 False []] = 1"
proof -
  have 1: "main_loop [0x44, 0x11, 1, 0, 0, 0, 0x44, 0x11, 1, 0, 0, 0, 0, 0] ([], 0) =
     Inr ([0x44, 0x11, 1, 0, 0, 0, 0x42, 0x17, 0, 0, 0x44, 0x11, 1, 0, 0, 0, 0, 0], 18)"
    by (simp add: eval_defs)
  have 2: "list_all before_end [Tag 69 False [1, 0, 0, 0], Tag 69 False [1, 0, 0, 0]]"
    "find refused [Tag 69 False [1, 0, 0, 0], Tag 69 False [1, 0, 0, 0]] = None"
    by (simp_all add: before_end_def valid_tag_def refused_def TAG_defs)
  have 3: "count_code TAG_FILE_ATTRIBUTES [Tag 69 False [1, 0, 0, 0], Tag 69 False [1, 0, 0, 0]] = 2"
    "count_code TAG_TELEMETRY
     [Tag 69 False [1, 0, 0, 0], telemetry_record, Tag 69 False [1, 0, 0, 0], Tag 0 False []] = 1"
    by (simp_all add: count_code_def telemetry_record_def TAG_defs)
  have 4: "encode_tags [Tag 69 False [1, 0, 0, 0], Tag 69 False [1, 0, 0, 0], Tag 0 False []] =
     [0x44, 0x11, 1, 0, 0, 0, 0x44, 0x11, 1, 0, 0, 0, 0, 0]"
    "[0x44, 0x11, 1, 0, 0, 0, 0x42, 0x17, 0, 0, 0x44, 0x11, 1, 0, 0, 0, 0, 0] =
     encode_tags [Tag 69 False [1, 0, 0, 0], telemetry_record, Tag 69 False [1, 0, 0, 0], Tag 0 False []]"
    by (simp_all add: encode_tags_def encode_tag_def le16_def telemetry_record_def TAG_defs)
  from 1 2 3 4 show ?thesis by blast
qed

subsection \<open>Runs on concrete files\<close>

text \<open>
  C1. The claim: a stream that already has a telemetry record is refused, wherever the
  record sits. The loop does refuse a telemetry record that the scan reaches (third
  equation), but not one read by the lookahead after the file-attributes record. The first
  run below turns a file with a file-attributes record into a file with the telemetry
  record right after it; the second run, on that output, does not panic and inserts a
  second telemetry record.
\<close>

theorem second_run_inserts_second_telemetry_tag:
  "main zr zw [0x46, 0x57, 0x53, 10, 0, 0, 0, 0, 0, 0, 24, 1, 0,
               0x44, 0x11, 1, 0, 0, 0, 0x40, 0, 0, 0] =
     Inr [0x46, 0x57, 0x53, 10, 27, 0, 0, 0, 0, 0, 24, 1, 0,
          0x44, 0x11, 1, 0, 0, 0, 0x42, 0x17, 0, 0, 0x40, 0, 0, 0] \<and>
   main zr zw [0x46, 0x57, 0x53, 10, 27, 0, 0, 0, 0, 0, 24, 1, 0,
               0x44, 0x11, 1, 0, 0, 0, 0x42, 0x17, 0, 0, 0x40, 0, 0, 0] =
     Inr [0x46, 0x57, 0x53, 10, 31, 0, 0, 0, 0, 0, 24, 1, 0,
          0x44, 0x11, 1, 0, 0, 0, 0x42, 0x17, 0, 0, 0x42, 0x17, 0, 0, 0x40, 0, 0, 0] \<and>
   main zr zw [0x46, 0x57, 0x53, 10, 27, 0, 0, 0, 0, 0, 24, 1, 0,
               0x42, 0x17, 0, 0, 0x44, 0x11, 1, 0, 0, 0, 0x40, 0, 0, 0] =
     Inl PanicTelemetryAlreadyEnabled"
  by (simp add: eval_defs)

text \<open>
  C3. The claim: the output has exactly one end record, the last record copied, and nothing
  is read after it. When the end record is the one read by the lookahead after the
  file-attributes record, the loop copies it and goes on: with nothing left to read it
  writes a second end record (first equation), and with records left it copies them
  (second equation).
\<close>

theorem end_record_after_file_attributes_does_not_stop:
  "main zr zw [0x46, 0x57, 0x53, 10, 0, 0, 0, 0, 0, 0, 24, 1, 0,
               0x44, 0x11, 1, 0, 0, 0, 0, 0] =
     Inr [0x46, 0x57, 0x53, 10, 27, 0, 0, 0, 0, 0, 24, 1, 0,
          0x44, 0x11, 1, 0, 0, 0, 0x42, 0x17, 0, 0, 0, 0, 0, 0] \<and>
   main zr zw [0x46, 0x57, 0x53, 10, 0, 0, 0, 0, 0, 0, 24, 1, 0,
               0x44, 0x11, 1, 0, 0, 0, 0, 0, 0x40, 0, 0, 0] =
     Inr [0x46, 0x57, 0x53, 10, 29, 0, 0, 0, 0, 0, 24, 1, 0,
          0x44, 0x11, 1, 0, 0, 0, 0x42, 0x17, 0, 0, 0, 0, 0x40, 0, 0, 0]"
  by (simp add: eval_defs)

text \<open>
  C4. The claim: a reader that ends inside a record makes the read fail. \<^verbatim>\<open>peekTag\<close>
  returns no error at all: an empty reader, or one with a single byte left, reads as an end
  record; a payload cut short is filled up with zero bytes; a long length cut short is
  read as 0. The run on a file that ends inside a payload succeeds.
\<close>

theorem short_read_is_not_an_error:
  "peekTag [] = (TAG_END, [0, 0], []) \<and>
   peekTag [0x40] = (TAG_END, [0, 0], []) \<and>
   peekTag [0x44, 0x02, 1] = (9, [0x44, 0x02, 1, 0, 0, 0], []) \<and>
   peekTag [0x7f, 0x02, 5, 0] = (9, [0x7f, 0x02, 0, 0, 0, 0], []) \<and>
   main zr zw [0x46, 0x57, 0x53, 10, 0, 0, 0, 0, 0, 0, 24, 1, 0, 0x44, 0x02, 1] =
     Inr [0x46, 0x57, 0x53, 10, 21, 0, 0, 0, 0, 0, 24, 1, 0, 0x44, 0x02, 1, 0, 0, 0, 0, 0]"
proof -
  have "replicate 3 (0 :: u8) = [0, 0, 0]" by (simp add: numeral_3_eq_3)
  then show ?thesis by (simp add: eval_defs)
qed

text \<open>
  C6. The claim: a signature other than the three known ones is refused as a format error.
  The signature test has no branch for it: \<^verbatim>\<open>reader\<close> stays nil and the first read of
  the body panics on it. The signature \<^verbatim>\<open>"ZWS"\<close> and a file shorter than the header
  are refused by returns of their own.
\<close>

theorem unknown_signature_reads_nil_reader:
  "main zr zw [0x41, 0x42, 0x43, 10, 0, 0, 0, 0, 0, 0, 24, 1, 0, 0, 0] = Inl PanicNilReader \<and>
   main zr zw [0x5A, 0x57, 0x53, 10, 0, 0, 0, 0, 0, 0, 24, 1, 0, 0, 0] = Inl NotSupportedYet \<and>
   main zr zw [0x41, 0x42, 0x43, 10, 0, 0, 0] = Inl ReadHeaderFailed"
  by (simp add: eval_defs)

end
